theory Spec2Isabelle
  imports Main
begin

section \<open>Amount.svelte: the amount field of the transfer form\<close>

text \<open>
  The component has two pieces of logic: the \<open>onbeforeinput\<close> handler of the amount
  field, which vetoes keystrokes, and \<open>setMaxAmount\<close>, which fills the field with the
  largest usable balance. Both are embedded below, together with the JavaScript string
  and regular-expression primitives they call.
\<close>

subsection \<open>JavaScript primitives\<close>

datatype js_error = TypeError

text \<open>\<open>\d\<close> of a JavaScript regular expression: the ten ASCII digits.\<close>

definition isDigit :: "char \<Rightarrow> bool" where
  "isDigit c \<longleftrightarrow> c \<in> set ''0123456789''"

text \<open>\<open>s.startsWith(p)\<close>\<close>

definition startsWith :: "string \<Rightarrow> string \<Rightarrow> bool" where
  "startsWith s p \<longleftrightarrow> take (length p) s = p"

text \<open>\<open>s.includes(c)\<close> for a one-character needle.\<close>

definition includes_str :: "string \<Rightarrow> char \<Rightarrow> bool" where
  "includes_str s c \<longleftrightarrow> c \<in> set s"

text \<open>
  \<open>s.split(c)\<close> for a one-character separator: the pieces between the occurrences
  of \<open>c\<close>, in order; the empty string gives one empty piece.
\<close>

fun split :: "string \<Rightarrow> char \<Rightarrow> string list" where
  "split [] c = [[]]"
| "split (x # xs) c =
     (if x = c then [] # split xs c
      else (case split xs c of [] \<Rightarrow> [[x]] | p # ps \<Rightarrow> (x # p) # ps))"

text \<open>\<open>xs[i]\<close> reads \<open>undefined\<close> out of range; \<open>None\<close> stands for it.\<close>

definition at_index :: "'a list \<Rightarrow> nat \<Rightarrow> 'a option" where
  "at_index xs i = (if i < length xs then Some (xs ! i) else None)"

text \<open>\<open>x.length\<close> of a value that may be \<open>undefined\<close>: a \<open>TypeError\<close> there.\<close>

definition length_of :: "string option \<Rightarrow> js_error + nat" where
  "length_of x = (case x of None \<Rightarrow> Inl TypeError | Some s \<Rightarrow> Inr (length s))"

subsection \<open>Regular expressions\<close>

text \<open>
  The fragment of regular expressions that the pattern \<open>/^\d*[.,]?\d*$/\<close> needs.
  \<open>Digit\<close> is \<open>\d\<close>, \<open>OneOf cs\<close> is a character class, \<open>Opt r\<close> is \<open>r?\<close> and
  \<open>Star r\<close> is \<open>r*\<close>. \<open>Zero\<close> and \<open>Alt\<close> only arise while matching. The pattern is
  anchored at both ends, so \<open>test\<close> decides whether the whole string matches.
\<close>

datatype rexp =
    Zero
  | Eps
  | Digit
  | OneOf string
  | Alt rexp rexp
  | Seq rexp rexp
  | Opt rexp
  | Star rexp

fun nullable :: "rexp \<Rightarrow> bool" where
  "nullable Zero = False"
| "nullable Eps = True"
| "nullable Digit = False"
| "nullable (OneOf cs) = False"
| "nullable (Alt r s) = (nullable r \<or> nullable s)"
| "nullable (Seq r s) = (nullable r \<and> nullable s)"
| "nullable (Opt r) = True"
| "nullable (Star r) = True"

fun deriv :: "char \<Rightarrow> rexp \<Rightarrow> rexp" where
  "deriv c Zero = Zero"
| "deriv c Eps = Zero"
| "deriv c Digit = (if isDigit c then Eps else Zero)"
| "deriv c (OneOf cs) = (if c \<in> set cs then Eps else Zero)"
| "deriv c (Alt r s) = Alt (deriv c r) (deriv c s)"
| "deriv c (Seq r s) =
     (if nullable r then Alt (Seq (deriv c r) s) (deriv c s) else Seq (deriv c r) s)"
| "deriv c (Opt r) = deriv c r"
| "deriv c (Star r) = Seq (deriv c r) (Star r)"

fun test :: "rexp \<Rightarrow> string \<Rightarrow> bool" where
  "test r [] = nullable r"
| "test r (c # cs) = test (deriv c r) cs"

text \<open>The meaning of a regular expression, as the set of strings it matches.\<close>

definition conc :: "string set \<Rightarrow> string set \<Rightarrow> string set" where
  "conc A B = {a @ b | a b. a \<in> A \<and> b \<in> B}"

inductive_set star :: "string set \<Rightarrow> string set" for A :: "string set" where
  star_nil: "[] \<in> star A"
| star_app: "a \<in> A \<Longrightarrow> b \<in> star A \<Longrightarrow> a @ b \<in> star A"

fun lang :: "rexp \<Rightarrow> string set" where
  "lang Zero = {}"
| "lang Eps = {[]}"
| "lang Digit = {[c] | c. isDigit c}"
| "lang (OneOf cs) = {[c] | c. c \<in> set cs}"
| "lang (Alt r s) = lang r \<union> lang s"
| "lang (Seq r s) = conc (lang r) (lang s)"
| "lang (Opt r) = insert [] (lang r)"
| "lang (Star r) = star (lang r)"

text \<open>\<open>/^\d*[.,]?\d*$/\<close>\<close>

definition shape_re :: rexp where
  "shape_re = Seq (Star Digit) (Seq (Opt (OneOf ''.,'')) (Star Digit))"

subsection \<open>The data the component reads\<close>

text \<open>
  The types of the store are declared outside the component; the records hold the
  fields that the component reads. A representation may lack its \<open>decimals\<close>, a count
  of fractional digits. A balance, once resolved, is a big integer of base units, on
  which \<open>BigInt(...)\<close> is the identity.
\<close>

record representation =
  decimals :: "nat option"

record token =
  denom :: string
  representations :: "representation list"

record chain =
  universal_chain_id :: string

record token_balance =
  balance :: "int option"

text \<open>
  \<open>transferData\<close>: the selected source chain, the selected token, its balance
  record, and the raw form field \<open>amount\<close>. \<open>inputElement\<close> is the \<open>value\<close> of the
  DOM element with id \<open>amount\<close>, when the document has one.
\<close>

record transfer_data =
  sourceChain :: "chain option"
  baseToken :: "token option"
  baseTokenBalance :: "token_balance option"
  amount :: string
  inputElement :: "string option"

text \<open>\<open>baseToken.representations[0]?.decimals\<close>\<close>

definition first_decimals :: "token \<Rightarrow> nat option" where
  "first_decimals t =
     (case at_index (representations t) 0 of None \<Rightarrow> None | Some r \<Rightarrow> decimals r)"

subsection \<open>The keystroke guard\<close>

text \<open>
  The \<open>beforeinput\<close> event: its \<open>inputType\<close>, its \<open>data\<close> (which may be null) and the
  \<open>value\<close> of the field it is aimed at.
\<close>

record input_event =
  inputType :: string
  data :: "string option"
  target_value :: string

text \<open>\<open>value + (data ?? "")\<close>\<close>

definition proposed_text :: "string \<Rightarrow> string option \<Rightarrow> string" where
  "proposed_text v dt = v @ (case dt of None \<Rightarrow> [] | Some x \<Rightarrow> x)"

text \<open>
  \<open>pipe(transferData.baseToken, Option.flatMap(x => Option.fromNullable(
  x.representations[0]?.decimals)), Option.getOrElse(() => 0))\<close>
\<close>

definition maxDecimals :: "token option \<Rightarrow> nat" where
  "maxDecimals bt =
     (case Option.bind bt first_decimals of None \<Rightarrow> 0 | Some n \<Rightarrow> n)"

text \<open>
  \<open>!proposed.includes(c) || proposed.split(c)[1].length <= maxDecimals\<close>: the right
  operand is evaluated only when the left one is false.
\<close>

definition validDecimalsFor :: "char \<Rightarrow> string \<Rightarrow> nat \<Rightarrow> js_error + bool" where
  "validDecimalsFor c proposed md =
     (if \<not> includes_str proposed c then Inr True
      else (case length_of (at_index (split proposed c) 1) of
              Inl e \<Rightarrow> Inl e
            | Inr n \<Rightarrow> Inr (n \<le> md)))"

text \<open>
  The value of \<open>allow\<close> in the handler. The constants are computed in the order of
  the source: \<open>validShape\<close>, \<open>validDecimalsDot\<close>, \<open>validDecimalsComma\<close>, \<open>isDelete\<close>,
  \<open>validDecimals\<close>, \<open>noDuplicateLeadingZeroes\<close>.
\<close>

definition allow :: "string \<Rightarrow> string \<Rightarrow> string option \<Rightarrow> nat \<Rightarrow> js_error + bool" where
  "allow itype v dt md =
     (let proposed = proposed_text v dt;
          validShape = test shape_re proposed
      in case validDecimalsFor CHR ''.'' proposed md of
           Inl e \<Rightarrow> Inl e
         | Inr validDecimalsDot \<Rightarrow>
             (case validDecimalsFor CHR '','' proposed md of
                Inl e \<Rightarrow> Inl e
              | Inr validDecimalsComma \<Rightarrow>
                  (let isDelete = startsWith itype ''delete'';
                       validDecimals = (validDecimalsComma \<and> validDecimalsDot);
                       noDuplicateLeadingZeroes = (\<not> startsWith proposed ''00'')
                   in Inr (isDelete \<or> (validDecimals \<and> validShape \<and> noDuplicateLeadingZeroes)))))"

text \<open>
  The handler: the result is whether \<open>event.preventDefault()\<close> was called, that is,
  whether the edit was vetoed.
\<close>

definition onbeforeinput :: "transfer_data \<Rightarrow> input_event \<Rightarrow> js_error + bool" where
  "onbeforeinput td ev =
     (case allow (inputType ev) (target_value ev) (data ev) (maxDecimals (baseToken td)) of
        Inl e \<Rightarrow> Inl e
      | Inr a \<Rightarrow> Inr (\<not> a))"

subsection \<open>Numbers as text\<close>

text \<open>
  \<open>BigInt.prototype.toString()\<close>: decimal digits, most significant first, after a
  \<open>-\<close> for a negative number. \<open>digit_char\<close> is only applied to numbers below 10.
\<close>

definition digit_char :: "nat \<Rightarrow> char" where
  "digit_char n = ''0123456789'' ! n"

fun digits_of :: "nat \<Rightarrow> string" where
  "digits_of n =
     (if n < 10 then [digit_char n] else digits_of (n div 10) @ [digit_char (n mod 10)])"

declare digits_of.simps [simp del]

definition toString :: "int \<Rightarrow> string" where
  "toString i = (if i < 0 then CHR ''-'' # digits_of (nat (- i)) else digits_of (nat i))"

text \<open>\<open>s.padStart(n, c)\<close>\<close>

definition padStart :: "string \<Rightarrow> nat \<Rightarrow> char \<Rightarrow> string" where
  "padStart s n c = replicate (n - length s) c @ s"

text \<open>
  \<open>s.slice(b, e)\<close>: a negative index counts from the end, and every index is clamped
  to the string.
\<close>

definition slice_index :: "nat \<Rightarrow> int \<Rightarrow> nat" where
  "slice_index len i = (if i < 0 then nat (max (int len + i) 0) else min (nat i) len)"

definition slice :: "string \<Rightarrow> int \<Rightarrow> int \<Rightarrow> string" where
  "slice s b e =
     (let from = slice_index (length s) b; to = slice_index (length s) e
      in take (to - from) (drop from s))"

text \<open>\<open>s.replace(/(0+)$/, "")\<close>: the trailing run of zeros is removed.\<close>

definition strip_zeros :: "string \<Rightarrow> string" where
  "strip_zeros s = rev (dropWhile (\<lambda>c. c = CHR ''0'') (rev s))"

text \<open>
  Modelled from the spec: \<open>formatUnits\<close> is imported from the \<open>viem\<close> package and its
  body is not among the sources. The spec asks for the conversion of integer base units
  to a decimal string by shifting the decimal point left by \<open>decimals\<close> places, padding
  and trimming as needed, with no rounding. The definition follows the steps of the
  library function: the digits of the absolute value are padded on the left with
  zeros to \<open>decimals\<close> characters, cut \<open>decimals\<close> characters before the end, the
  fraction loses its trailing zeros, an empty integer part reads \<open>0\<close>, and the
  separator is written only before a non-empty fraction.
\<close>

definition formatUnits :: "int \<Rightarrow> nat \<Rightarrow> string" where
  "formatUnits v dec =
     (let display = toString v;
          negative = startsWith display ''-'';
          display = (if negative then slice display 1 (int (length display)) else display);
          display = padStart display dec CHR ''0'';
          integer = slice display 0 (int (length display) - int dec);
          fraction = slice display (int (length display) - int dec) (int (length display));
          fraction = strip_zeros fraction
      in (if negative then ''-'' else [])
         @ (if integer = [] then ''0'' else integer)
         @ (if fraction \<noteq> [] then ''.'' @ fraction else []))"

subsection \<open>The max-amount action\<close>

text \<open>\<open>baseToken.representations[0]?.decimals ?? 0\<close>\<close>

definition decimals_of :: "token \<Rightarrow> nat" where
  "decimals_of t = (case first_decimals t of None \<Rightarrow> 0 | Some n \<Rightarrow> n)"

text \<open>
  \<open>transferData.sourceChain.value.universal_chain_id === "babylon.bbn-1"
  && baseToken.denom === toHex("ubbn")\<close>. The encoder \<open>toHex\<close> is imported from the
  \<open>viem\<close> package; it is an argument here, and of \<open>setMaxAmount\<close>.
\<close>

definition isUbbn :: "(string \<Rightarrow> string) \<Rightarrow> chain \<Rightarrow> token \<Rightarrow> bool" where
  "isUbbn toHex ch t \<longleftrightarrow>
     universal_chain_id ch = ''babylon.bbn-1'' \<and> denom t = toHex ''ubbn''"

text \<open>\<open>20n * 10n ** BigInt(decimals)\<close>\<close>

definition BABY_SUB_AMOUNT :: "nat \<Rightarrow> int" where
  "BABY_SUB_AMOUNT dec = 20 * 10 ^ dec"

text \<open>
  \<open>isUbbn && rawBalance > BABY_SUB_AMOUNT ? rawBalance - BABY_SUB_AMOUNT : rawBalance\<close>,
  with the flag and the reserve as arguments.
\<close>

definition maxUsable :: "bool \<Rightarrow> int \<Rightarrow> int \<Rightarrow> int" where
  "maxUsable native rawBalance reserve =
     (if native \<and> rawBalance > reserve then rawBalance - reserve else rawBalance)"

text \<open>\<open>formatUnits(maxUsable, decimals)\<close>: the text that the action writes.\<close>

definition computeMax :: "int \<Rightarrow> nat \<Rightarrow> bool \<Rightarrow> int \<Rightarrow> string" where
  "computeMax rawBalance dec native reserve =
     formatUnits (maxUsable native rawBalance reserve) dec"

text \<open>
  Modelled from the spec: \<open>transferData.raw.updateField\<close> belongs to the form store,
  which is not among the sources. The spec describes it as the sink that accepts a
  display amount and propagates it into the shared form state, in the same way for
  typing and for the max-amount action: the text becomes the \<open>amount\<close> of the form.
\<close>

definition updateField_amount :: "string \<Rightarrow> transfer_data \<Rightarrow> transfer_data" where
  "updateField_amount x td = td\<lparr>amount := x\<rparr>"

text \<open>
  The \<open>oninput\<close> handler of the field, which runs when an \<open>input\<close> event is
  dispatched on it: the form takes the text of the element.
\<close>

definition oninput :: "transfer_data \<Rightarrow> transfer_data" where
  "oninput td = (case inputElement td of None \<Rightarrow> td | Some x \<Rightarrow> updateField_amount x td)"

text \<open>
  \<open>setMaxAmount\<close>: four early returns, then the amount is computed, stored in the
  form and, when the document has the element, written to it and announced by an
  \<open>input\<close> event.
\<close>

definition setMaxAmount :: "(string \<Rightarrow> string) \<Rightarrow> transfer_data \<Rightarrow> transfer_data" where
  "setMaxAmount toHex td =
     (case baseToken td of
        None \<Rightarrow> td
      | Some bt \<Rightarrow>
     (case baseTokenBalance td of
        None \<Rightarrow> td
      | Some tb \<Rightarrow>
     (case balance tb of
        None \<Rightarrow> td
      | Some rawBalance \<Rightarrow>
     (case sourceChain td of
        None \<Rightarrow> td
      | Some ch \<Rightarrow>
          (let dec = decimals_of bt;
               formattedAmount = computeMax rawBalance dec (isUbbn toHex ch bt) (BABY_SUB_AMOUNT dec);
               td1 = updateField_amount formattedAmount td
           in case inputElement td1 of
                None \<Rightarrow> td1
              | Some old \<Rightarrow> oninput (td1\<lparr>inputElement := Some formattedAmount\<rparr>))))))"

subsection \<open>The balance display\<close>

text \<open>\<open>displayBalance\<close>: the formatted balance, or the empty text while it is not loaded.\<close>

definition displayBalance :: "transfer_data \<Rightarrow> string" where
  "displayBalance td =
     (case (sourceChain td, baseToken td, baseTokenBalance td) of
        (Some ch, Some bt, Some tb) \<Rightarrow>
          (case balance tb of
             Some raw \<Rightarrow> formatUnits raw (decimals_of bt)
           | None \<Rightarrow> [])
      | _ \<Rightarrow> [])"

subsection \<open>The properties, as the specification words them\<close>

text \<open>A fractional separator: \<open>.\<close> or \<open>,\<close>.\<close>

definition isSep :: "char \<Rightarrow> bool" where
  "isSep c \<longleftrightarrow> c = CHR ''.'' \<or> c = CHR '',''"

text \<open>The text after the first occurrence of \<open>c\<close>.\<close>

definition after_first :: "char \<Rightarrow> string \<Rightarrow> string" where
  "after_first c s = drop 1 (dropWhile (\<lambda>x. x \<noteq> c) s)"

text \<open>
  The acceptance rule of the guard: a deletion, or a proposed text of the right shape
  with at most \<open>md\<close> characters after the first \<open>.\<close> and after the first \<open>,\<close> (when
  there is one) and without a leading \<open>00\<close>.
\<close>

definition guard_spec :: "string \<Rightarrow> string \<Rightarrow> string option \<Rightarrow> nat \<Rightarrow> bool" where
  "guard_spec itype v dt md \<longleftrightarrow>
     startsWith itype ''delete'' \<or>
     (let proposed = v @ (case dt of None \<Rightarrow> [] | Some x \<Rightarrow> x)
      in test shape_re proposed
         \<and> (CHR ''.'' \<in> set proposed \<longrightarrow> length (after_first CHR ''.'' proposed) \<le> md)
         \<and> (CHR '','' \<in> set proposed \<longrightarrow> length (after_first CHR '','' proposed) \<le> md)
         \<and> \<not> startsWith proposed ''00'')"

text \<open>The text after the first separator of either kind.\<close>

definition fraction_part :: "string \<Rightarrow> string" where
  "fraction_part s = drop 1 (dropWhile (\<lambda>x. \<not> isSep x) s)"

text \<open>
  The invariant of an accepted text: the shape, at most one separator, at most \<open>md\<close>
  characters after it, no leading \<open>00\<close>.
\<close>

definition accepted_ok :: "string \<Rightarrow> nat \<Rightarrow> bool" where
  "accepted_ok s md \<longleftrightarrow>
     test shape_re s \<and> length (filter isSep s) \<le> 1 \<and> length (fraction_part s) \<le> md
     \<and> \<not> startsWith s ''00''"

text \<open>The number that a string of decimal digits writes.\<close>

definition digit_value :: "char \<Rightarrow> nat" where
  "digit_value c = of_char c - 48"

definition number_of :: "string \<Rightarrow> nat" where
  "number_of s = foldl (\<lambda>n c. 10 * n + digit_value c) 0 s"

text \<open>
  Modelled from the spec: the base-unit reading of a display amount, the conversion
  that \<open>formatUnits\<close> is said to invert; the component has no such function. The
  integer part counts \<open>10 ^ dec\<close> base units each, the fraction is padded on the right
  to \<open>dec\<close> digits. A text of another shape, or with more than \<open>dec\<close> fractional digits
  (which would need rounding), has no reading.
\<close>

definition parseUnits :: "string \<Rightarrow> nat \<Rightarrow> int option" where
  "parseUnits s dec =
     (case dropWhile isDigit s of
        [] \<Rightarrow> Some (int (number_of s * 10 ^ dec))
      | c # fp \<Rightarrow>
          if isSep c \<and> list_all isDigit fp \<and> length fp \<le> dec
          then Some (int (number_of (takeWhile isDigit s) * 10 ^ dec
                          + number_of fp * 10 ^ (dec - length fp)))
          else None)"

text \<open>
  What \<open>formatUnits\<close> writes from the padded digits \<open>p\<close> of a value: the part before
  the last \<open>dec\<close> digits (or \<open>0\<close>), and the rest without its trailing zeros after a
  \<open>.\<close> when it is not empty.
\<close>

definition format_digits :: "string \<Rightarrow> nat \<Rightarrow> string" where
  "format_digits p dec =
     (if take (length p - dec) p = [] then ''0'' else take (length p - dec) p)
     @ (if strip_zeros (drop (length p - dec) p) \<noteq> [] then ''.'' @ strip_zeros (drop (length p - dec) p) else [])"

subsection \<open>Sample data\<close>

text \<open>
  The hexadecimal encoding of a text, \<open>0x\<close> and two digits for each byte, as an encoder
  for the examples; the Babylon chain with its native token \<open>ubbn\<close>, whose denom is the
  encoded name; and a form in which both are selected and the balance is loaded.
\<close>

definition hex_char :: "nat \<Rightarrow> char" where
  "hex_char n = ''0123456789abcdef'' ! n"

definition hex_text :: "string \<Rightarrow> string" where
  "hex_text s =
     ''0x'' @ concat (map (\<lambda>c. [hex_char (of_char c div 16), hex_char (of_char c mod 16)]) s)"

definition babylon :: chain where
  "babylon = \<lparr>universal_chain_id = ''babylon.bbn-1''\<rparr>"

definition ubbn_token :: "nat option \<Rightarrow> token" where
  "ubbn_token d = \<lparr>denom = ''0x7562626e'', representations = [\<lparr>decimals = d\<rparr>]\<rparr>"

definition sample_data :: "nat option \<Rightarrow> int \<Rightarrow> transfer_data" where
  "sample_data d raw =
     \<lparr>sourceChain = Some babylon, baseToken = Some (ubbn_token d),
      baseTokenBalance = Some \<lparr>balance = Some raw\<rparr>, amount = ''7'', inputElement = Some ''7''\<rparr>"

section \<open>The regular-expression matcher is correct\<close>

lemma nullable_iff: "nullable r \<longleftrightarrow> [] \<in> lang r"
  by (induction r) (auto simp: conc_def intro: star.star_nil)

lemma conc_cons:
  "{s. c # s \<in> conc A B} = conc {s. c # s \<in> A} B \<union> (if [] \<in> A then {s. c # s \<in> B} else {})"
  unfolding conc_def
  by (auto simp: Cons_eq_append_conv)

lemma star_cons_split:
  "s \<in> star A \<Longrightarrow> s = c # t \<Longrightarrow> \<exists>a b. t = a @ b \<and> c # a \<in> A \<and> b \<in> star A"
proof (induction arbitrary: t rule: star.induct)
  case star_nil
  then show ?case by simp
next
  case (star_app a b)
  show ?case
  proof (cases a)
    case Nil
    with star_app show ?thesis by simp
  next
    case (Cons x xs)
    with star_app.prems have "x = c" and "t = xs @ b" by simp_all
    with star_app.hyps Cons show ?thesis by blast
  qed
qed

lemma star_cons:
  "{s. c # s \<in> star A} = conc {s. c # s \<in> A} (star A)"
proof (rule set_eqI, rule iffI)
  fix s assume "s \<in> {s. c # s \<in> star A}"
  then show "s \<in> conc {s. c # s \<in> A} (star A)"
    using star_cons_split [of "c # s" A c s] by (auto simp: conc_def)
next
  fix s assume "s \<in> conc {s. c # s \<in> A} (star A)"
  then obtain a b where "s = a @ b" "c # a \<in> A" "b \<in> star A"
    by (auto simp: conc_def)
  then show "s \<in> {s. c # s \<in> star A}"
    using star.star_app [of "c # a" A b] by simp
qed

lemma lang_deriv: "lang (deriv c r) = {s. c # s \<in> lang r}"
proof (induction r)
  case (Seq r1 r2)
  then show ?case by (simp add: conc_cons nullable_iff)
next
  case (Star r)
  then show ?case by (simp add: star_cons)
qed (auto simp: conc_def)

lemma test_iff_lang: "test r s \<longleftrightarrow> s \<in> lang r"
  by (induction s arbitrary: r) (simp_all add: nullable_iff lang_deriv)

lemma lang_Digit: "s \<in> lang Digit \<longleftrightarrow> (\<exists>c. s = [c] \<and> isDigit c)"
  by auto

lemma star_digit: "s \<in> star (lang Digit) \<longleftrightarrow> list_all isDigit s"
proof
  assume "s \<in> star (lang Digit)"
  then show "list_all isDigit s"
    by (induction rule: star.induct) (auto simp: lang_Digit simp del: lang.simps)
next
  assume "list_all isDigit s"
  then show "s \<in> star (lang Digit)"
  proof (induction s)
    case Nil
    show ?case by (rule star.star_nil)
  next
    case (Cons x xs)
    then have "[x] \<in> lang Digit" and "xs \<in> star (lang Digit)"
      by (simp_all add: lang_Digit del: lang.simps)
    then have "[x] @ xs \<in> star (lang Digit)" by (rule star.star_app)
    then show ?case by simp
  qed
qed

lemma lang_shape:
  "s \<in> lang shape_re \<longleftrightarrow>
     (\<exists>a m b. s = a @ m @ b \<and> list_all isDigit a \<and> list_all isDigit b \<and>
        (m = [] \<or> (\<exists>c. m = [c] \<and> isSep c)))"
proof -
  have sep: "m \<in> lang (Opt (OneOf ''.,'')) \<longleftrightarrow> (m = [] \<or> (\<exists>c. m = [c] \<and> isSep c))" for m
    by (auto simp: isSep_def)
  have "s \<in> lang shape_re \<longleftrightarrow>
      (\<exists>a m b. s = a @ m @ b \<and> a \<in> star (lang Digit) \<and> m \<in> lang (Opt (OneOf ''.,''))
         \<and> b \<in> star (lang Digit))"
    unfolding shape_re_def lang.simps(6) lang.simps(8) conc_def by blast
  then show ?thesis
    unfolding star_digit sep by blast
qed

lemma isSep_not_digit: "isSep c \<Longrightarrow> \<not> isDigit c"
  by (auto simp: isSep_def isDigit_def)

lemma dropWhile_digits: "list_all isDigit a \<Longrightarrow> \<not> isDigit c \<Longrightarrow> dropWhile isDigit (a @ c # b) = c # b"
  by (induction a) simp_all

lemma takeWhile_digits: "list_all isDigit a \<Longrightarrow> \<not> isDigit c \<Longrightarrow> takeWhile isDigit (a @ c # b) = a"
  by (induction a) simp_all

lemma dropWhile_all_digits: "list_all isDigit a \<Longrightarrow> dropWhile isDigit a = []"
  by (induction a) simp_all

lemma shape_scan:
  "test shape_re s \<longleftrightarrow>
     (case dropWhile isDigit s of [] \<Rightarrow> True | c # b \<Rightarrow> isSep c \<and> list_all isDigit b)"
proof
  assume "test shape_re s"
  then obtain a m b where s: "s = a @ m @ b" and a: "list_all isDigit a" and b: "list_all isDigit b"
    and m: "m = [] \<or> (\<exists>c. m = [c] \<and> isSep c)"
    unfolding test_iff_lang lang_shape by blast
  from m show "case dropWhile isDigit s of [] \<Rightarrow> True | c # b \<Rightarrow> isSep c \<and> list_all isDigit b"
  proof
    assume "m = []"
    with s a b have "list_all isDigit s" by simp
    then show ?thesis by (simp add: dropWhile_all_digits)
  next
    assume "\<exists>c. m = [c] \<and> isSep c"
    then obtain c where c: "m = [c]" "isSep c" by blast
    with s a have "dropWhile isDigit s = c # b"
      by (simp add: dropWhile_digits isSep_not_digit)
    with c b show ?thesis by simp
  qed
next
  assume r: "case dropWhile isDigit s of [] \<Rightarrow> True | c # b \<Rightarrow> isSep c \<and> list_all isDigit b"
  have ta: "list_all isDigit (takeWhile isDigit s)"
    by (simp add: list_all_iff) (meson set_takeWhileD)
  have split: "s = takeWhile isDigit s @ dropWhile isDigit s" by simp
  show "test shape_re s"
  proof (cases "dropWhile isDigit s")
    case Nil
    with split have "s = takeWhile isDigit s @ [] @ []" by simp
    moreover have "list_all isDigit ([]::string)" by simp
    ultimately show ?thesis unfolding test_iff_lang lang_shape using ta by blast
  next
    case (Cons c b)
    with r have "isSep c" "list_all isDigit b" by simp_all
    moreover from split Cons have "s = takeWhile isDigit s @ [c] @ b" by simp
    ultimately show ?thesis unfolding test_iff_lang lang_shape using ta by blast
  qed
qed

section \<open>The keystroke guard\<close>

lemma split_head: "\<exists>ps. split s c = takeWhile (\<lambda>x. x \<noteq> c) s # ps"
  by (induction s) auto

lemma split_first: "c \<notin> set a \<Longrightarrow> split (a @ c # b) c = a # split b c"
  by (induction a) (auto split: list.splits)

lemma dropWhile_first: "c \<notin> set a \<Longrightarrow> dropWhile (\<lambda>x. x \<noteq> c) (a @ c # b) = c # b"
  by (induction a) auto

lemma split_second:
  assumes "c \<in> set s"
  shows "at_index (split s c) 1 = Some (takeWhile (\<lambda>x. x \<noteq> c) (after_first c s))"
proof -
  from assms obtain a b where s: "s = a @ c # b" and a: "c \<notin> set a"
    by (meson split_list_first)
  obtain ps where ps: "split b c = takeWhile (\<lambda>x. x \<noteq> c) b # ps"
    using split_head by blast
  show ?thesis
    using a by (simp add: s split_first ps at_index_def after_first_def dropWhile_first)
qed

lemma validDecimalsFor_eq:
  "validDecimalsFor c p md =
     Inr (c \<in> set p \<longrightarrow> length (takeWhile (\<lambda>x. x \<noteq> c) (after_first c p)) \<le> md)"
  using split_second [of c p]
  by (simp add: validDecimalsFor_def includes_str_def length_of_def)

lemma digits_no_sep: "list_all isDigit b \<Longrightarrow> isSep c \<Longrightarrow> c \<notin> set b"
  by (auto simp: list_all_iff dest: isSep_not_digit)

lemma shape_after_first:
  assumes "test shape_re p" and "isSep c" and "c \<in> set p"
  shows "p = takeWhile isDigit p @ c # after_first c p \<and> list_all isDigit (after_first c p)"
proof -
  define a where "a = takeWhile isDigit p"
  have ta: "list_all isDigit a"
    unfolding a_def by (simp add: list_all_iff) (meson set_takeWhileD)
  have p: "p = a @ dropWhile isDigit p" by (simp add: a_def)
  show ?thesis
  proof (cases "dropWhile isDigit p")
    case Nil
    with p ta have "list_all isDigit p" by simp
    with assms show ?thesis using digits_no_sep by blast
  next
    case (Cons c' b)
    with assms(1) have c': "isSep c'" and b: "list_all isDigit b"
      by (simp_all add: shape_scan)
    from p Cons have p': "p = a @ c' # b" by simp
    have na: "c \<notin> set a" and nb: "c \<notin> set b"
      using ta b assms(2) digits_no_sep by blast+
    from assms(3) have "c \<in> set (a @ c' # b)" by (subst p' [symmetric])
    with na nb have cc: "c' = c" by simp
    have "after_first c (a @ c # b) = b"
      using na by (simp add: after_first_def dropWhile_first)
    moreover have "takeWhile isDigit (a @ c # b) = a"
      using ta assms(2) by (simp add: takeWhile_digits isSep_not_digit)
    ultimately show ?thesis using b by (simp add: p' cc)
  qed
qed

lemma shape_takeWhile:
  assumes "test shape_re p" and "isSep c" and "c \<in> set p"
  shows "takeWhile (\<lambda>x. x \<noteq> c) (after_first c p) = after_first c p"
proof -
  from shape_after_first [OF assms] have "list_all isDigit (after_first c p)" by simp
  with assms(2) have "c \<notin> set (after_first c p)" using digits_no_sep by blast
  then have "\<forall>x\<in>set (after_first c p). x \<noteq> c" by blast
  then show ?thesis by (simp only: takeWhile_eq_all_conv)
qed

lemma validDecimalsFor_shape:
  assumes "test shape_re p" and "isSep c"
  shows "validDecimalsFor c p md = Inr (c \<in> set p \<longrightarrow> length (after_first c p) \<le> md)"
proof (cases "c \<in> set p")
  case True
  from shape_takeWhile [OF assms True] True show ?thesis
    by (simp only: validDecimalsFor_eq)
next
  case False
  then show ?thesis by (simp only: validDecimalsFor_eq) simp
qed

lemma validDecimalsFor_total: "\<exists>b. validDecimalsFor c p md = Inr b"
  by (simp only: validDecimalsFor_eq) blast

lemma allow_value: "allow itype v dt md = Inr (guard_spec itype v dt md)"
proof -
  define p where "p = proposed_text v dt"
  have p': "v @ (case dt of None \<Rightarrow> [] | Some x \<Rightarrow> x) = p"
    by (simp add: p_def proposed_text_def)
  have dot: "isSep CHR ''.''" and comma: "isSep CHR '',''" by (simp_all add: isSep_def)
  obtain bd bc where bd: "validDecimalsFor CHR ''.'' p md = Inr bd"
    and bc: "validDecimalsFor CHR '','' p md = Inr bc"
    using validDecimalsFor_total by blast
  have a: "allow itype v dt md =
      Inr (startsWith itype ''delete'' \<or> ((bc \<and> bd) \<and> test shape_re p \<and> \<not> startsWith p ''00''))"
    by (simp add: allow_def Let_def p_def [symmetric] bd bc)
  have g: "guard_spec itype v dt md \<longleftrightarrow>
     startsWith itype ''delete'' \<or>
       (test shape_re p
         \<and> (CHR ''.'' \<in> set p \<longrightarrow> length (after_first CHR ''.'' p) \<le> md)
         \<and> (CHR '','' \<in> set p \<longrightarrow> length (after_first CHR '','' p) \<le> md)
         \<and> \<not> startsWith p ''00'')"
    by (simp only: guard_spec_def Let_def p')
  show ?thesis
  proof (cases "test shape_re p")
    case True
    from bd validDecimalsFor_shape [OF True dot, of md]
    have 1: "bd \<longleftrightarrow> (CHR ''.'' \<in> set p \<longrightarrow> length (after_first CHR ''.'' p) \<le> md)" by simp
    from bc validDecimalsFor_shape [OF True comma, of md]
    have 2: "bc \<longleftrightarrow> (CHR '','' \<in> set p \<longrightarrow> length (after_first CHR '','' p) \<le> md)" by simp
    show ?thesis unfolding a g 1 2 by blast
  next
    case False
    then show ?thesis unfolding a g by simp
  qed
qed

text \<open>
  C1: for every edit proposal and every precision, the guard accepts the edit exactly
  when the edit is a deletion, or the proposed text matches the shape pattern, has at
  most \<open>md\<close> characters after the first \<open>.\<close> when there is one, at most \<open>md\<close>
  characters after the first \<open>,\<close> when there is one, and does not start with \<open>00\<close>.
  The handler never fails, and it vetoes the edit exactly when the rule rejects it.
\<close>

theorem guard_accepts_iff:
  "allow itype v dt md = Inr (guard_spec itype v dt md)
   \<and> onbeforeinput td ev =
       Inr (\<not> guard_spec (inputType ev) (target_value ev) (data ev) (maxDecimals (baseToken td)))"
  by (simp add: onbeforeinput_def allow_value)

text \<open>
  The rule at work: \<open>1.23\<close> is accepted at precision 2 and \<open>1.234\<close> is not.
\<close>

theorem guard_accepts_iff_witness:
  "CHR ''.'' \<in> set (''1.2'' @ ''3'') \<and> length (after_first CHR ''.'' (''1.2'' @ ''3'')) \<le> 2
   \<and> allow ''insertText'' ''1.2'' (Some ''3'') 2 = Inr True
   \<and> allow ''insertText'' ''1.23'' (Some ''4'') 2 = Inr False"
  using guard_accepts_iff [of "''insertText''" "''1.2''" "Some ''3''" 2]
    guard_accepts_iff [of "''insertText''" "''1.23''" "Some ''4''" 2]
  by (simp add: guard_spec_def after_first_def startsWith_def shape_re_def isDigit_def)

lemma after_first_length: "length b \<le> length (after_first c (a @ c # b))"
  by (induction a) (simp_all add: after_first_def)

lemma guard_spec_not_delete:
  "\<not> startsWith itype ''delete'' \<Longrightarrow>
   guard_spec itype v dt md \<longleftrightarrow>
     test shape_re (proposed_text v dt)
     \<and> (CHR ''.'' \<in> set (proposed_text v dt) \<longrightarrow> length (after_first CHR ''.'' (proposed_text v dt)) \<le> md)
     \<and> (CHR '','' \<in> set (proposed_text v dt) \<longrightarrow> length (after_first CHR '','' (proposed_text v dt)) \<le> md)
     \<and> \<not> startsWith (proposed_text v dt) ''00''"
  by (simp add: guard_spec_def proposed_text_def Let_def)

lemma shape_cases:
  assumes "test shape_re p"
  shows "list_all isDigit p \<or>
         (\<exists>a c b. p = a @ c # b \<and> list_all isDigit a \<and> isSep c \<and> list_all isDigit b)"
proof -
  from assms obtain a m b where "p = a @ m @ b" "list_all isDigit a" "list_all isDigit b"
      "m = [] \<or> (\<exists>c. m = [c] \<and> isSep c)"
    unfolding test_iff_lang lang_shape by blast
  then show ?thesis by auto
qed

lemma filter_sep_digits: "list_all isDigit a \<Longrightarrow> filter isSep a = []"
  by (induction a) (auto dest: isSep_not_digit)

lemma dropWhile_not_sep_digits: "list_all isDigit a \<Longrightarrow> dropWhile (\<lambda>x. \<not> isSep x) (a @ r) = dropWhile (\<lambda>x. \<not> isSep x) r"
  by (induction a) (auto dest: isSep_not_digit)

lemma dropWhile_not_sep_all: "list_all isDigit a \<Longrightarrow> dropWhile (\<lambda>x. \<not> isSep x) a = []"
  by (induction a) (auto dest: isSep_not_digit)

text \<open>
  C4, as amended: every proposed text that the guard accepts for an edit that is not a
  deletion matches the shape pattern, holds at most one separator, has at most \<open>md\<close>
  characters after the separator, and does not start with \<open>00\<close>.
\<close>

theorem accepted_invariant_insertion:
  assumes nd: "\<not> startsWith itype ''delete''" and acc: "allow itype v dt md = Inr True"
  shows "accepted_ok (proposed_text v dt) md"
proof -
  define p where "p = proposed_text v dt"
  from acc have "guard_spec itype v dt md" by (simp add: allow_value)
  with nd have sh: "test shape_re p"
    and dot: "CHR ''.'' \<in> set p \<Longrightarrow> length (after_first CHR ''.'' p) \<le> md"
    and comma: "CHR '','' \<in> set p \<Longrightarrow> length (after_first CHR '','' p) \<le> md"
    and z: "\<not> startsWith p ''00''"
    by (simp_all add: guard_spec_not_delete p_def)
  from shape_cases [OF sh] have "length (filter isSep p) \<le> 1 \<and> length (fraction_part p) \<le> md"
  proof
    assume "list_all isDigit p"
    then show ?thesis
      by (simp add: filter_sep_digits fraction_part_def dropWhile_not_sep_all)
  next
    assume "\<exists>a c b. p = a @ c # b \<and> list_all isDigit a \<and> isSep c \<and> list_all isDigit b"
    then obtain a c b where p: "p = a @ c # b" and a: "list_all isDigit a" and c: "isSep c"
      and b: "list_all isDigit b" by blast
    from a c have "c \<notin> set a" by (rule digits_no_sep)
    then have af: "after_first c p = b"
      by (simp add: p after_first_def dropWhile_first)
    from c have "c \<in> set p \<and> (c = CHR ''.'' \<or> c = CHR '','')" by (simp add: p isSep_def)
    with dot comma af have "length b \<le> md" by auto
    moreover have "fraction_part p = b"
      using a c by (simp add: p fraction_part_def dropWhile_not_sep_digits)
    moreover have "filter isSep p = [c]"
      using a b c by (simp add: p filter_sep_digits)
    ultimately show ?thesis by simp
  qed
  with sh z show ?thesis by (simp add: accepted_ok_def p_def)
qed

text \<open>
  C4 as stated, for all accepted proposals, fails on deletions: with \<open>1.234\<close> in the
  field and precision 2, a backward deletion is accepted although the text that the
  guard examined has three fractional digits.
\<close>

theorem accepted_invariant_deletion_counterexample:
  "allow ''deleteContentBackward'' ''1.234'' None 2 = Inr True
   \<and> \<not> accepted_ok (proposed_text ''1.234'' None) 2"
  by (simp add: allow_def validDecimalsFor_def includes_str_def length_of_def at_index_def
      startsWith_def accepted_ok_def proposed_text_def fraction_part_def isSep_def)

text \<open>An accepted insertion, and the invariant it satisfies.\<close>

theorem accepted_invariant_insertion_witness:
  "\<not> startsWith ''insertText'' ''delete'' \<and> allow ''insertText'' ''1.2'' (Some ''3'') 2 = Inr True
   \<and> accepted_ok (proposed_text ''1.2'' (Some ''3'')) 2"
proof -
  have nd: "\<not> startsWith ''insertText'' ''delete''" by (simp add: startsWith_def)
  have acc: "allow ''insertText'' ''1.2'' (Some ''3'') 2 = Inr True"
    by (simp add: allow_def validDecimalsFor_def includes_str_def length_of_def at_index_def
      startsWith_def proposed_text_def shape_re_def isDigit_def)
  from accepted_invariant_insertion [OF nd acc] nd acc show ?thesis by simp
qed

text \<open>
  C5: an edit whose input type is a deletion is accepted whatever the text in the
  field, the data of the event and the precision are: the handler does not veto it.
\<close>

theorem deletion_always_accepted:
  assumes "startsWith (inputType ev) ''delete''"
  shows "allow (inputType ev) (target_value ev) (data ev) md = Inr True
         \<and> onbeforeinput td ev = Inr False"
  using assms by (simp add: onbeforeinput_def allow_value guard_spec_def)

text \<open>
  A deletion on a text that breaks the shape, the precision and the leading-zero rule.
\<close>

theorem deletion_always_accepted_witness:
  "startsWith ''deleteContentBackward'' ''delete''
   \<and> \<not> accepted_ok ''00.x,'' 0
   \<and> allow ''deleteContentBackward'' ''00.x,'' None 0 = Inr True"
  using deletion_always_accepted
    [of "\<lparr>inputType = ''deleteContentBackward'', data = None, target_value = ''00.x,''\<rparr>" 0]
  by (simp add: startsWith_def accepted_ok_def)

lemma startsWith_00_snoc:
  assumes "list_all isDigit a" and "\<not> startsWith a ''00''" and "isSep c"
  shows "\<not> startsWith (a @ [c]) ''00''"
proof (cases a)
  case Nil
  with assms(3) show ?thesis by (auto simp: startsWith_def isSep_def)
next
  case (Cons x xs)
  with assms show ?thesis
    by (cases xs) (auto simp: startsWith_def isSep_def)
qed

lemma bare_separator_ok:
  assumes a: "list_all isDigit a" and c: "isSep c" and d: "isSep d" and "d \<in> set (a @ [c])"
  shows "after_first d (a @ [c]) = []"
proof -
  from a d have "d \<notin> set a" by (rule digits_no_sep)
  with assms(4) have "d = c" by simp
  with \<open>d \<notin> set a\<close> show ?thesis by (simp add: after_first_def dropWhile_first)
qed

lemma fraction_rejected_at_zero:
  assumes "\<not> startsWith itype ''delete''" and "isSep c" and "b \<noteq> []"
    and "proposed_text v dt = a @ c # b"
  shows "allow itype v dt 0 = Inr False"
proof -
  have "c \<in> set (proposed_text v dt)" and "0 < length (after_first c (proposed_text v dt))"
    using assms(3,4) after_first_length [of b c a] by (cases b; auto)+
  moreover from assms(2) have "c = CHR ''.'' \<or> c = CHR '',''" by (simp add: isSep_def)
  ultimately have "\<not> guard_spec itype v dt 0"
    using assms(1) by (auto simp: guard_spec_not_delete)
  then show ?thesis by (simp add: allow_value)
qed

text \<open>
  C9, as amended: at precision 0 the guard rejects every edit other than a deletion
  whose proposed text has one or more characters after a separator, and it accepts a
  proposed text that ends in a bare separator when the part before the separator
  consists of digits and does not start with \<open>00\<close>; the proposal of \<open>.\<close> after \<open>1\<close> is
  accepted at precision 2.
\<close>

theorem zero_precision_guard:
  "(\<not> startsWith itype ''delete'' \<and> isSep c \<and> b \<noteq> [] \<and> proposed_text v dt = a @ c # b
      \<longrightarrow> allow itype v dt 0 = Inr False)
   \<and> (list_all isDigit a' \<and> \<not> startsWith a' ''00'' \<and> isSep c' \<and> proposed_text v' dt' = a' @ [c']
      \<longrightarrow> allow itype' v' dt' 0 = Inr True)
   \<and> allow ''insertText'' ''1'' (Some ''.'') 2 = Inr True"
proof (intro conjI impI)
  assume "\<not> startsWith itype ''delete'' \<and> isSep c \<and> b \<noteq> [] \<and> proposed_text v dt = a @ c # b"
  then show "allow itype v dt 0 = Inr False"
    using fraction_rejected_at_zero [of itype c b v dt a] by simp
next
  assume h: "list_all isDigit a' \<and> \<not> startsWith a' ''00'' \<and> isSep c' \<and> proposed_text v' dt' = a' @ [c']"
  have dot: "isSep CHR ''.''" and comma: "isSep CHR '',''" by (simp_all add: isSep_def)
  have "list_all isDigit ([]::string)" by simp
  with h have "test shape_re (a' @ [c'] @ [])"
    unfolding test_iff_lang lang_shape by blast
  moreover from h have "\<not> startsWith (a' @ [c']) ''00''" by (simp add: startsWith_00_snoc)
  ultimately have "guard_spec itype' v' dt' 0"
    using h bare_separator_ok [of a' c' "CHR ''.''"] bare_separator_ok [of a' c' "CHR '',''"] dot comma
    by (simp add: guard_spec_def proposed_text_def [symmetric])
  then show "allow itype' v' dt' 0 = Inr True" by (simp add: allow_value)
next
  show "allow ''insertText'' ''1'' (Some ''.'') 2 = Inr True"
    by (simp add: allow_def validDecimalsFor_def includes_str_def length_of_def at_index_def
      startsWith_def proposed_text_def shape_re_def isDigit_def)
qed

text \<open>
  C9 as stated, for every proposed text that ends in a bare separator, fails: with
  \<open>00\<close> in the field at precision 0, the insertion of \<open>.\<close> proposes \<open>00.\<close>, which has
  no fractional digit and is rejected for its leading \<open>00\<close>.
\<close>

theorem zero_precision_bare_separator_counterexample:
  "proposed_text ''00'' (Some ''.'') = ''00'' @ [CHR ''.'']
   \<and> isSep CHR ''.''
   \<and> after_first CHR ''.'' (proposed_text ''00'' (Some ''.'')) = []
   \<and> allow ''insertText'' ''00'' (Some ''.'') 0 = Inr False"
  by (simp add: allow_def validDecimalsFor_def includes_str_def length_of_def at_index_def
      startsWith_def proposed_text_def shape_re_def isDigit_def isSep_def after_first_def)

text \<open>At precision 0, \<open>1.5\<close> is rejected and \<open>1.\<close> is accepted.\<close>

theorem zero_precision_guard_witness:
  "\<not> startsWith ''insertText'' ''delete'' \<and> isSep CHR ''.'' \<and> ''5'' \<noteq> []
   \<and> allow ''insertText'' ''1.'' (Some ''5'') 0 = Inr False
   \<and> list_all isDigit ''1'' \<and> \<not> startsWith ''1'' ''00''
   \<and> allow ''insertText'' ''1'' (Some ''.'') 0 = Inr True"
  using zero_precision_guard [of "''insertText''" "CHR ''.''" "''5''" "''1.''" "Some ''5''" "''1''"
      "''1''" "CHR ''.''" "''1''" "Some ''.''" "''insertText''"]
  by (simp add: startsWith_def isSep_def isDigit_def proposed_text_def)

section \<open>Numbers and their digits\<close>

lemma below_ten: "n < 10 \<Longrightarrow> n \<in> {0, 1, 2, 3, 4, 5, 6, 7, 8, 9::nat}"
  by auto

lemma digit_char_isDigit: "n < 10 \<Longrightarrow> isDigit (digit_char n)"
  by (drule below_ten) (auto simp: digit_char_def isDigit_def)

lemma digit_value_digit_char: "n < 10 \<Longrightarrow> digit_value (digit_char n) = n"
  by (drule below_ten) (auto simp: digit_char_def digit_value_def)

lemma digits_of_digits: "list_all isDigit (digits_of n)"
proof (induction n rule: digits_of.induct)
  case (1 n)
  show ?case
  proof (cases "n < 10")
    case True
    then show ?thesis by (subst digits_of.simps) (simp add: digit_char_isDigit)
  next
    case False
    with 1 show ?thesis by (subst digits_of.simps) (simp add: digit_char_isDigit)
  qed
qed

lemma digits_of_nonempty: "digits_of n \<noteq> []"
  by (subst digits_of.simps) simp

lemma number_of_Nil: "number_of [] = 0"
  by (simp add: number_of_def)

lemma number_of_snoc: "number_of (s @ [c]) = 10 * number_of s + digit_value c"
  by (simp add: number_of_def)

lemma number_of_append: "number_of (a @ b) = number_of a * 10 ^ length b + number_of b"
proof (induction b rule: rev_induct)
  case Nil
  show ?case by (simp add: number_of_Nil)
next
  case (snoc x xs)
  have "number_of (a @ xs @ [x]) = 10 * number_of (a @ xs) + digit_value x"
    using number_of_snoc [of "a @ xs" x] by simp
  with snoc show ?case by (simp add: number_of_snoc algebra_simps)
qed

lemma number_of_digits_of: "number_of (digits_of n) = n"
proof (induction n rule: digits_of.induct)
  case (1 n)
  show ?case
  proof (cases "n < 10")
    case True
    then show ?thesis
      using number_of_snoc [of "[]" "digit_char n"]
      by (subst digits_of.simps) (simp add: number_of_Nil digit_value_digit_char)
  next
    case False
    with 1 show ?thesis
      by (subst digits_of.simps) (simp add: number_of_snoc digit_value_digit_char)
  qed
qed

lemma digit_value_zero: "digit_value CHR ''0'' = 0"
  by (simp add: digit_value_def)

lemma number_of_zeros: "number_of (replicate k CHR ''0'') = 0"
proof (induction k)
  case 0
  show ?case by (simp add: number_of_Nil)
next
  case (Suc k)
  have "replicate (Suc k) CHR ''0'' = replicate k CHR ''0'' @ [CHR ''0'']"
    by (simp add: replicate_append_same)
  with Suc show ?case by (simp only: number_of_snoc digit_value_zero)
qed

lemma number_of_pad_left: "number_of (replicate k CHR ''0'' @ s) = number_of s"
  by (simp add: number_of_append number_of_zeros)

lemma number_of_pad_right: "number_of (s @ replicate k CHR ''0'') = number_of s * 10 ^ k"
  by (simp add: number_of_append number_of_zeros)

lemma takeWhile_zeros: "takeWhile (\<lambda>c. c = x) s = replicate (length (takeWhile (\<lambda>c. c = x) s)) x"
  by (induction s) simp_all

lemma strip_zeros_decomp:
  "s = strip_zeros s @ replicate (length s - length (strip_zeros s)) CHR ''0''"
proof -
  let ?P = "\<lambda>c. c = CHR ''0''"
  have "rev s = takeWhile ?P (rev s) @ dropWhile ?P (rev s)" by simp
  then have "s = rev (dropWhile ?P (rev s)) @ rev (takeWhile ?P (rev s))"
    by (metis rev_append rev_rev_ident)
  moreover have "rev (takeWhile ?P (rev s)) = replicate (length (takeWhile ?P (rev s))) CHR ''0''"
    by (subst takeWhile_zeros) simp
  moreover have "length (takeWhile ?P (rev s)) = length s - length (strip_zeros s)"
  proof -
    have "length (rev s) = length (takeWhile ?P (rev s)) + length (dropWhile ?P (rev s))"
      by (metis length_append takeWhile_dropWhile_id)
    then show ?thesis by (simp add: strip_zeros_def)
  qed
  ultimately show ?thesis by (simp add: strip_zeros_def)
qed

lemma strip_zeros_length: "length (strip_zeros s) \<le> length s"
  by (simp add: strip_zeros_def) (metis length_dropWhile_le length_rev)

lemma strip_zeros_digits: "list_all isDigit s \<Longrightarrow> list_all isDigit (strip_zeros s)"
  by (auto simp: strip_zeros_def list_all_iff dest: set_dropWhileD)

lemma strip_zeros_replicate: "strip_zeros (replicate k CHR ''0'') = []"
  by (simp add: strip_zeros_def)

lemma slice_prefix:
  "d \<le> length s \<Longrightarrow> slice s 0 (int (length s) - int d) = take (length s - d) s"
  by (simp add: slice_def slice_index_def Let_def nat_diff_distrib')

lemma slice_suffix:
  "d \<le> length s \<Longrightarrow> slice s (int (length s) - int d) (int (length s)) = drop (length s - d) s"
  by (simp add: slice_def slice_index_def Let_def nat_diff_distrib')

lemma slice_tail: "slice (c # s) 1 (int (length (c # s))) = s"
  by (simp add: slice_def slice_index_def Let_def)

lemma digits_not_minus: "\<not> startsWith (digits_of n) ''-''"
proof -
  obtain x xs where d: "digits_of n = x # xs"
    using digits_of_nonempty [of n] by (cases "digits_of n") auto
  with digits_of_digits [of n] have "isDigit x" by simp
  then have "x \<noteq> CHR ''-''" by (auto simp: isDigit_def)
  with d show ?thesis by (simp add: startsWith_def)
qed

lemma padStart_length: "dec \<le> length (padStart s dec c)"
  by (simp add: padStart_def)

lemma formatUnits_nat:
  "formatUnits (int n) dec = format_digits (padStart (digits_of n) dec CHR ''0'') dec"
  by (simp add: formatUnits_def toString_def digits_not_minus Let_def
      slice_prefix slice_suffix padStart_length format_digits_def)

lemma formatUnits_neg:
  "v < 0 \<Longrightarrow> formatUnits v dec = CHR ''-'' # format_digits (padStart (digits_of (nat (- v))) dec CHR ''0'') dec"
  using slice_tail [of "CHR ''-''" "digits_of (nat (- v))"]
  by (simp add: formatUnits_def toString_def Let_def startsWith_def
      slice_prefix slice_suffix padStart_length format_digits_def)

lemma format_digits_zero_dec: "p \<noteq> [] \<Longrightarrow> format_digits p 0 = p"
  by (simp add: format_digits_def strip_zeros_def)

lemma formatUnits_whole: "formatUnits v 0 = toString v"
proof (cases "v < 0")
  case True
  then show ?thesis
    by (simp add: formatUnits_neg padStart_def format_digits_zero_dec digits_of_nonempty toString_def)
next
  case False
  then have "v = int (nat v)" by simp
  then have "formatUnits v 0 = formatUnits (int (nat v)) 0" by simp
  also have "\<dots> = digits_of (nat v)"
    by (simp only: formatUnits_nat) (simp add: padStart_def format_digits_zero_dec digits_of_nonempty)
  finally show ?thesis using False by (simp add: toString_def)
qed

section \<open>Reading back what \<open>formatUnits\<close> writes\<close>

lemma zero_isDigit: "isDigit CHR ''0''"
  by (simp add: isDigit_def)

lemma dot_not_digit: "\<not> isDigit CHR ''.''"
  by (simp add: isDigit_def)

lemma dot_isSep: "isSep CHR ''.''"
  by (simp add: isSep_def)

lemma number_of_0: "number_of ''0'' = 0"
  by (simp add: number_of_def digit_value_def)

lemma parse_format_digits:
  assumes p: "list_all isDigit p" and len: "dec \<le> length p"
  shows "parseUnits (format_digits p dec) dec = Some (int (number_of p))"
proof -
  define i where "i = take (length p - dec) p"
  define f where "f = drop (length p - dec) p"
  define ip where "ip = (if i = [] then ''0'' else i)"
  define g where "g = strip_zeros f"
  have pif: "p = i @ f" by (simp add: i_def f_def)
  have lf: "length f = dec" using len by (simp add: f_def)
  from p have di: "list_all isDigit i" and df: "list_all isDigit f"
    by (simp_all add: i_def f_def list_all_iff) (meson in_set_takeD, meson in_set_dropD)
  have dip: "list_all isDigit ip" using di by (simp add: ip_def zero_isDigit)
  have nip: "number_of ip = number_of i" by (simp add: ip_def number_of_0 number_of_Nil)
  have dg: "list_all isDigit g" using df by (simp add: g_def strip_zeros_digits)
  have lg: "length g \<le> dec" using strip_zeros_length [of f] by (simp add: g_def lf)
  have fg: "f = g @ replicate (dec - length g) CHR ''0''"
    using strip_zeros_decomp [of f] by (simp add: g_def lf)
  have nf: "number_of f = number_of g * 10 ^ (dec - length g)"
    by (subst fg) (rule number_of_pad_right)
  have np: "number_of p = number_of ip * 10 ^ dec + number_of g * 10 ^ (dec - length g)"
    by (simp add: pif number_of_append lf nf nip)
  have fmt: "format_digits p dec = ip @ (if g \<noteq> [] then CHR ''.'' # g else [])"
    by (simp add: format_digits_def i_def [symmetric] f_def [symmetric] ip_def g_def)
  show ?thesis
  proof (cases "g = []")
    case True
    then have "format_digits p dec = ip" by (simp add: fmt)
    moreover have "parseUnits ip dec = Some (int (number_of ip * 10 ^ dec))"
      using dip by (simp add: parseUnits_def dropWhile_all_digits)
    moreover from True have "number_of p = number_of ip * 10 ^ dec"
      by (simp add: np number_of_Nil)
    ultimately show ?thesis by simp
  next
    case False
    then have "format_digits p dec = ip @ CHR ''.'' # g" by (simp add: fmt)
    moreover have "parseUnits (ip @ CHR ''.'' # g) dec
        = Some (int (number_of ip * 10 ^ dec + number_of g * 10 ^ (dec - length g)))"
      using dip dg lg
      by (simp add: parseUnits_def dropWhile_digits takeWhile_digits dot_not_digit dot_isSep)
    ultimately show ?thesis by (simp add: np)
  qed
qed

lemma parse_format_nat: "parseUnits (formatUnits (int n) dec) dec = Some (int n)"
proof -
  have "list_all isDigit (padStart (digits_of n) dec CHR ''0'')"
    using digits_of_digits [of n] by (auto simp: padStart_def zero_isDigit list_all_iff)
  then have "parseUnits (formatUnits (int n) dec) dec
      = Some (int (number_of (padStart (digits_of n) dec CHR ''0'')))"
    by (simp only: formatUnits_nat parse_format_digits padStart_length)
  then show ?thesis
    by (simp add: padStart_def number_of_pad_left number_of_digits_of)
qed

lemma parse_format_int: "0 \<le> u \<Longrightarrow> parseUnits (formatUnits u dec) dec = Some u"
  using parse_format_nat [of "nat u" dec] by simp

text \<open>
  C6: the conversion from base units to a display amount loses nothing: for every
  amount \<open>u \<ge> 0\<close> and every precision, reading the text that \<open>formatUnits\<close> writes
  gives \<open>u\<close> back; the reading exists, so no rounding was needed.
\<close>

theorem format_parse_roundtrip:
  "0 \<le> u \<Longrightarrow> parseUnits (formatUnits u dec) dec = Some u"
  using parse_format_nat [of "nat u" dec] by simp

text \<open>105 base units at precision 2 are written \<open>1.05\<close> and read back as 105.\<close>

theorem format_parse_roundtrip_witness:
  "(0::int) \<le> 105 \<and> formatUnits 105 2 = ''1.05'' \<and> parseUnits ''1.05'' 2 = Some 105"
proof -
  have "digits_of 105 = ''105''"
    by (simp add: digits_of.simps digit_char_def)
  then have f: "formatUnits 105 2 = ''1.05''"
    using formatUnits_nat [of 105 2]
    by (simp add: format_digits_def padStart_def strip_zeros_def)
  from format_parse_roundtrip [of 105 2] f show ?thesis by simp
qed

section \<open>The max-amount action\<close>

lemma digits_of_5_pow: "digits_of (5 * 10 ^ d) = CHR ''5'' # replicate d CHR ''0''"
proof (induction d)
  case 0
  show ?case by (simp add: digits_of.simps digit_char_def)
next
  case (Suc d)
  have big: "\<not> (5 * 10 ^ Suc d < (10::nat))" by simp
  have "digits_of (5 * 10 ^ Suc d)
      = digits_of ((5 * 10 ^ Suc d) div 10) @ [digit_char ((5 * 10 ^ Suc d) mod 10)]"
    using big by (subst digits_of.simps) simp
  also have "(5 * 10 ^ Suc d) div 10 = (5 * 10 ^ d :: nat)" by simp
  also have "(5 * 10 ^ Suc d) mod 10 = (0::nat)" by simp
  finally show ?case
    by (simp add: Suc digit_char_def replicate_append_same)
qed

lemma formatUnits_5_pow: "formatUnits (5 * 10 ^ d) d = ''5''"
proof -
  have "format_digits (padStart (digits_of (5 * 10 ^ d)) d CHR ''0'') d = ''5''"
    by (simp add: digits_of_5_pow padStart_def format_digits_def strip_zeros_replicate)
  then show ?thesis using formatUnits_nat [of "5 * 10 ^ d" d] by simp
qed

text \<open>
  C7: for every precision \<open>d\<close>, the maximum of a native balance of \<open>25 * 10 ^ d\<close> with
  the reserve \<open>20 * 10 ^ d\<close>, which is the reserve the action uses, is the text \<open>5\<close>.
\<close>

theorem computeMax_reserve_example:
  "computeMax (25 * 10 ^ d) d True (20 * 10 ^ d) = ''5''
   \<and> BABY_SUB_AMOUNT d = 20 * 10 ^ d"
proof -
  have "maxUsable True (25 * 10 ^ d) (20 * 10 ^ d) = 5 * 10 ^ d"
    by (simp add: maxUsable_def)
  then show ?thesis by (simp add: computeMax_def formatUnits_5_pow BABY_SUB_AMOUNT_def)
qed

lemma maxUsable_nonneg: "0 \<le> b \<Longrightarrow> 0 \<le> r \<Longrightarrow> 0 \<le> maxUsable native b r"
  by (simp add: maxUsable_def)

lemma formatUnits_inj:
  assumes "0 \<le> x" and "0 \<le> y" and "formatUnits x dec = formatUnits y dec"
  shows "x = y"
proof -
  have "Some x = parseUnits (formatUnits x dec) dec" using assms(1) by (simp add: parse_format_int)
  also have "\<dots> = Some y" using assms(2,3) by (simp add: parse_format_int)
  finally show ?thesis by simp
qed

text \<open>
  C3, as amended: for a balance and a reserve that are not negative, the text that
  \<open>computeMax\<close> writes can be read back, and computing the maximum of that reading
  gives the same text exactly when the asset is not the native reserved one, or the
  reserve is zero, or the balance is at most twice the reserve.
\<close>

theorem computeMax_reapplied:
  assumes b: "0 \<le> b" and r: "0 \<le> r"
  shows "\<exists>u. parseUnits (computeMax b dec native r) dec = Some u
           \<and> (computeMax u dec native r = computeMax b dec native r
                \<longleftrightarrow> \<not> (native \<and> 0 < r \<and> 2 * r < b))"
proof -
  define u where "u = maxUsable native b r"
  have u0: "0 \<le> u" using b r by (simp add: u_def maxUsable_nonneg)
  have p: "parseUnits (computeMax b dec native r) dec = Some u"
    using u0 by (simp add: computeMax_def u_def [symmetric] parse_format_int)
  have "computeMax u dec native r = computeMax b dec native r \<longleftrightarrow> maxUsable native u r = u"
    using formatUnits_inj [of "maxUsable native u r" u dec] u0 r
    by (auto simp: computeMax_def u_def [symmetric] maxUsable_nonneg)
  also have "\<dots> \<longleftrightarrow> \<not> (native \<and> 0 < r \<and> 2 * r < b)"
    using b r by (auto simp: u_def maxUsable_def)
  finally show ?thesis using p by blast
qed

text \<open>
  C3 as stated fails: a native balance of 45 with reserve 20 at precision 0 gives
  \<open>25\<close>, and the maximum of 25 is \<open>5\<close>: the reserve is subtracted again.
\<close>

theorem computeMax_reapplied_counterexample:
  "parseUnits (computeMax 45 0 True 20) 0 = Some 25
   \<and> computeMax 45 0 True 20 = ''25'' \<and> computeMax 25 0 True 20 = ''5''
   \<and> computeMax 25 0 True 20 \<noteq> computeMax 45 0 True 20"
proof -
  have d25: "digits_of 25 = ''25''" and d5: "digits_of 5 = ''5''"
    by (simp_all add: digits_of.simps digit_char_def)
  have a: "computeMax 45 0 True 20 = ''25''"
    using formatUnits_whole [of 25] by (simp add: computeMax_def maxUsable_def toString_def d25)
  have c: "computeMax 25 0 True 20 = ''5''"
    using formatUnits_whole [of 5] by (simp add: computeMax_def maxUsable_def toString_def d5)
  have "parseUnits ''25'' 0 = Some 25"
    by (simp add: parseUnits_def isDigit_def number_of_def digit_value_def)
  with a c show ?thesis by simp
qed

text \<open>A native balance of 25 with reserve 20: the maximum \<open>5\<close> is stable.\<close>

theorem computeMax_reapplied_witness:
  "(0::int) \<le> 25 \<and> (0::int) \<le> 20
   \<and> parseUnits (computeMax 25 0 True 20) 0 = Some 5
   \<and> computeMax 5 0 True 20 = computeMax 25 0 True 20"
proof -
  have d5: "digits_of 5 = ''5''"
    by (simp add: digits_of.simps digit_char_def)
  have c: "computeMax 25 0 True 20 = ''5''"
    using formatUnits_whole [of 5] by (simp add: computeMax_def maxUsable_def toString_def d5)
  have p: "parseUnits ''5'' 0 = Some 5"
    by (simp add: parseUnits_def isDigit_def number_of_def digit_value_def)
  from computeMax_reapplied [of 25 20 0 True] c p show ?thesis by simp
qed

lemma setMaxAmount_amount:
  assumes "baseToken td = Some bt" and "baseTokenBalance td = Some tb"
    and "balance tb = Some rawBalance" and "sourceChain td = Some ch"
  shows "amount (setMaxAmount toHex td)
     = computeMax rawBalance (decimals_of bt) (isUbbn toHex ch bt) (BABY_SUB_AMOUNT (decimals_of bt))"
  using assms
  by (simp add: setMaxAmount_def Let_def updateField_amount_def oninput_def split: option.splits)

text \<open>
  C2: for a balance and a reserve that are not negative, the usable amount is the
  balance less the reserve exactly when the asset is the native reserved one and the
  balance exceeds the reserve, and the whole balance otherwise; it is never negative.
  \<open>setMaxAmount\<close> writes this amount, with the reserve \<open>20 * 10 ^ decimals\<close>.
\<close>

theorem usable_amount:
  assumes "0 \<le> rawBalance" and "0 \<le> reserve"
  shows "(native \<and> reserve < rawBalance \<longrightarrow> maxUsable native rawBalance reserve = rawBalance - reserve)
     \<and> (\<not> (native \<and> reserve < rawBalance) \<longrightarrow> maxUsable native rawBalance reserve = rawBalance)
     \<and> 0 \<le> maxUsable native rawBalance reserve
     \<and> computeMax rawBalance dec native reserve = formatUnits (maxUsable native rawBalance reserve) dec
     \<and> (baseToken td = Some bt \<and> baseTokenBalance td = Some tb
          \<and> balance tb = Some rawBalance \<and> sourceChain td = Some ch
        \<longrightarrow> amount (setMaxAmount toHex td)
            = formatUnits (maxUsable (isUbbn toHex ch bt) rawBalance (20 * 10 ^ decimals_of bt)) (decimals_of bt))"
  using assms
  by (auto simp: maxUsable_nonneg setMaxAmount_amount computeMax_def BABY_SUB_AMOUNT_def)
     (simp_all add: maxUsable_def)

lemma hex_text_ubbn: "hex_text ''ubbn'' = ''0x7562626e''"
  by (simp add: hex_text_def hex_char_def)

lemma isUbbn_sample: "isUbbn hex_text babylon (ubbn_token d)"
  by (simp add: isUbbn_def babylon_def ubbn_token_def hex_text_ubbn)

lemma decimals_of_sample: "decimals_of (ubbn_token (Some n)) = n" "decimals_of (ubbn_token None) = 0"
  by (simp_all add: decimals_of_def first_decimals_def at_index_def ubbn_token_def)

text \<open>Balances of 45 and 15 against a reserve of 20.\<close>

theorem usable_amount_witness:
  "(0::int) \<le> 45 \<and> (0::int) \<le> 20 \<and> maxUsable True 45 20 = 25 \<and> maxUsable True 15 20 = 15
   \<and> maxUsable False 45 20 = 45
   \<and> amount (setMaxAmount hex_text (sample_data (Some 0) 45)) = ''25''"
proof -
  have d25: "digits_of 25 = ''25''"
    by (simp add: digits_of.simps digit_char_def)
  have f: "formatUnits 25 0 = ''25''"
    using formatUnits_whole [of 25] by (simp add: toString_def d25)
  have s: "baseToken (sample_data (Some 0) 45) = Some (ubbn_token (Some 0))
      \<and> baseTokenBalance (sample_data (Some 0) 45) = Some \<lparr>balance = Some 45\<rparr>
      \<and> balance \<lparr>balance = Some 45\<rparr> = Some 45
      \<and> sourceChain (sample_data (Some 0) 45) = Some babylon"
    by (simp add: sample_data_def)
  from usable_amount [of 45 20 True 0 "sample_data (Some 0) 45" "ubbn_token (Some 0)"
      "\<lparr>balance = Some 45\<rparr>" babylon hex_text]
    usable_amount [of 15 20 True 0] usable_amount [of 45 20 False 0]
  show ?thesis
    by (simp add: s isUbbn_sample decimals_of_sample f)
qed

text \<open>
  C8: when no token is selected, or there is no balance record, or the balance is not
  resolved, or no chain is selected, \<open>setMaxAmount\<close> returns the state it was given:
  the form field, the element and everything else are unchanged.
\<close>

theorem setMaxAmount_missing_prerequisite:
  assumes "baseToken td = None \<or> baseTokenBalance td = None
     \<or> (\<exists>tb. baseTokenBalance td = Some tb \<and> balance tb = None) \<or> sourceChain td = None"
  shows "setMaxAmount toHex td = td"
  using assms by (auto simp: setMaxAmount_def split: option.splits)

text \<open>Each of the four prerequisites, missing in turn.\<close>

theorem setMaxAmount_missing_prerequisite_witness:
  "setMaxAmount hex_text ((sample_data (Some 6) 45)\<lparr>baseToken := None\<rparr>) = (sample_data (Some 6) 45)\<lparr>baseToken := None\<rparr>
   \<and> setMaxAmount hex_text ((sample_data (Some 6) 45)\<lparr>baseTokenBalance := None\<rparr>) = (sample_data (Some 6) 45)\<lparr>baseTokenBalance := None\<rparr>
   \<and> setMaxAmount hex_text ((sample_data (Some 6) 45)\<lparr>baseTokenBalance := Some \<lparr>balance = None\<rparr>\<rparr>)
       = (sample_data (Some 6) 45)\<lparr>baseTokenBalance := Some \<lparr>balance = None\<rparr>\<rparr>
   \<and> setMaxAmount hex_text ((sample_data (Some 6) 45)\<lparr>sourceChain := None\<rparr>) = (sample_data (Some 6) 45)\<lparr>sourceChain := None\<rparr>"
  using setMaxAmount_missing_prerequisite [where toHex = hex_text and td = "(sample_data (Some 6) 45)\<lparr>baseToken := None\<rparr>"]
    setMaxAmount_missing_prerequisite [where toHex = hex_text and td = "(sample_data (Some 6) 45)\<lparr>baseTokenBalance := None\<rparr>"]
    setMaxAmount_missing_prerequisite [where toHex = hex_text and td = "(sample_data (Some 6) 45)\<lparr>baseTokenBalance := Some \<lparr>balance = None\<rparr>\<rparr>"]
    setMaxAmount_missing_prerequisite [where toHex = hex_text and td = "(sample_data (Some 6) 45)\<lparr>sourceChain := None\<rparr>"]
  by (simp add: sample_data_def)

section \<open>A token without a declared precision\<close>

lemma first_decimals_absent:
  "representations bt = [] \<or> (\<exists>r rs. representations bt = r # rs \<and> decimals r = None)
   \<Longrightarrow> first_decimals bt = None"
  by (auto simp: first_decimals_def at_index_def)

lemma digits_no_separator: "filter isSep (digits_of n) = []"
  using digits_of_digits [of n] by (rule filter_sep_digits)

lemma toString_no_separator: "filter isSep (toString v) = []"
  by (simp add: toString_def digits_no_separator isSep_def)

lemma displayBalance_loaded:
  assumes "baseToken td = Some bt" and "baseTokenBalance td = Some tb"
    and "balance tb = Some raw" and "sourceChain td = Some ch"
  shows "displayBalance td = formatUnits raw (decimals_of bt)"
  using assms by (simp add: displayBalance_def)

text \<open>
  C10: when the selected token has no first representation, or that representation has
  no decimals, the guard, the max-amount action and the balance display all work at
  precision 0: an edit other than a deletion that leaves text after a separator is
  vetoed, and the maximum and the balance are written as whole numbers, the digits of
  the integer without a separator.
\<close>

theorem absent_representation_precision_zero:
  assumes bt: "baseToken td = Some bt"
    and nr: "representations bt = [] \<or> (\<exists>r rs. representations bt = r # rs \<and> decimals r = None)"
  shows "maxDecimals (baseToken td) = 0 \<and> decimals_of bt = 0
     \<and> (\<not> startsWith (inputType ev) ''delete'' \<and> isSep c \<and> b \<noteq> []
          \<and> proposed_text (target_value ev) (data ev) = a @ c # b
        \<longrightarrow> onbeforeinput td ev = Inr True)
     \<and> (baseTokenBalance td = Some tb \<and> balance tb = Some raw \<and> sourceChain td = Some ch
        \<longrightarrow> amount (setMaxAmount toHex td) = toString (maxUsable (isUbbn toHex ch bt) raw 20)
            \<and> displayBalance td = toString raw
            \<and> filter isSep (amount (setMaxAmount toHex td)) = []
            \<and> filter isSep (displayBalance td) = [])"
proof -
  from nr have fd: "first_decimals bt = None" by (rule first_decimals_absent)
  then have md: "maxDecimals (baseToken td) = 0" and d0: "decimals_of bt = 0"
    by (simp_all add: maxDecimals_def decimals_of_def bt)
  have guard: "onbeforeinput td ev = Inr True"
    if "\<not> startsWith (inputType ev) ''delete'' \<and> isSep c \<and> b \<noteq> []
          \<and> proposed_text (target_value ev) (data ev) = a @ c # b"
    using that fraction_rejected_at_zero [of "inputType ev" c b "target_value ev" "data ev" a]
    by (simp add: onbeforeinput_def md)
  have rest: "amount (setMaxAmount toHex td) = toString (maxUsable (isUbbn toHex ch bt) raw 20)
            \<and> displayBalance td = toString raw
            \<and> filter isSep (amount (setMaxAmount toHex td)) = []
            \<and> filter isSep (displayBalance td) = []"
    if "baseTokenBalance td = Some tb \<and> balance tb = Some raw \<and> sourceChain td = Some ch"
    using that bt
    by (simp add: setMaxAmount_amount displayBalance_loaded d0 computeMax_def BABY_SUB_AMOUNT_def
        formatUnits_whole toString_no_separator)
  from md d0 guard rest show ?thesis by blast
qed

text \<open>The native token without decimals and a balance of 45.\<close>

theorem absent_representation_precision_zero_witness:
  "baseToken (sample_data None 45) = Some (ubbn_token None)
   \<and> decimals (hd (representations (ubbn_token None))) = None
   \<and> onbeforeinput (sample_data None 45)
        \<lparr>inputType = ''insertText'', data = Some ''5'', target_value = ''1.''\<rparr> = Inr True
   \<and> amount (setMaxAmount hex_text (sample_data None 45)) = ''25''
   \<and> displayBalance (sample_data None 45) = ''45''"
proof -
  have d: "digits_of 25 = ''25''" "digits_of 45 = ''45''"
    by (simp_all add: digits_of.simps digit_char_def)
  have s: "baseToken (sample_data None 45) = Some (ubbn_token None)"
    "baseTokenBalance (sample_data None 45) = Some \<lparr>balance = Some 45\<rparr>"
    "sourceChain (sample_data None 45) = Some babylon"
    by (simp_all add: sample_data_def)
  have nr: "representations (ubbn_token None) = []
      \<or> (\<exists>r rs. representations (ubbn_token None) = r # rs \<and> decimals r = None)"
    by (simp add: ubbn_token_def)
  have h: "decimals (hd (representations (ubbn_token None))) = None"
    by (simp add: ubbn_token_def)
  from absent_representation_precision_zero [OF s(1) nr,
      of "\<lparr>inputType = ''insertText'', data = Some ''5'', target_value = ''1.''\<rparr>"
         "CHR ''.''" "''5''" "''1''" "\<lparr>balance = Some 45\<rparr>" 45 babylon hex_text]
  show ?thesis
    by (simp add: s h isUbbn_sample maxUsable_def toString_def d startsWith_def isSep_def
        proposed_text_def)
qed

end
